theory Spec2Isabelle
  imports Main
begin

section \<open>The bounded crawl engine of \<open>backend/app/services/scraper.py\<close>\<close>

text \<open>
  The module is embedded function by function. Mutable objects (\<open>WebScraper\<close>,
  \<open>RobotsTxtChecker\<close>) are records passed in and returned updated; a raised exception is
  the \<open>Inl\<close> of a sum; every \<open>requests.get\<close> is appended to a log of network calls, whose
  answers come from an oracle indexed by the number of calls made before, so that the same
  URL may answer differently at different times.

  The functions of third-party packages that the module calls (\<open>validators\<close>,
  \<open>urllib.parse\<close>, \<open>bs4\<close>, \<open>robotexclusionrulesparser\<close>) are not part of the
  repository: they are the fields of a record \<open>pylib\<close> that every definition takes as its
  first argument, and the general theorems hold for every such record.
\<close>

subsection \<open>Exceptions\<close>

datatype exn =
    ValueError string
  | PermissionError string
  | Exception string

text \<open>\<open>str(e)\<close>: the message the exception was built with.\<close>

fun str :: "exn \<Rightarrow> string" where
  "str (ValueError m) = m"
| "str (PermissionError m) = m"
| "str (Exception m) = m"

subsection \<open>Data\<close>

record ScrapingConfig =
  max_pages :: int
  rate_limit :: int
  respect_robots_txt :: bool
  scrape_multiple_pages :: bool

text \<open>The defaults of the dataclass.\<close>

definition ScrapingConfig_default :: ScrapingConfig where
  "ScrapingConfig_default =
     \<lparr>max_pages = 100, rate_limit = 1, respect_robots_txt = True, scrape_multiple_pages = True\<rparr>"

text \<open>
  A parsed document, as far as the module looks at it: its tags in document order, each
  with its name, the value of its \<open>href\<close> attribute when it has one, and its text.
\<close>

record tag =
  tag_name :: string
  tag_href :: "string option"
  tag_text :: string

type_synonym soup = "tag list"

record heading =
  level :: nat
  htext :: string

record Content =
  title :: string
  headings :: "heading list"
  paragraphs :: "string list"
  code_blocks :: "string list"

record PageRecord =
  url :: string
  content :: Content

record CrawlResult =
  base_url :: string
  pages :: "PageRecord list"
  error :: "string option"

subsection \<open>The network\<close>

text \<open>
  A \<open>requests.Response\<close> with its \<open>status_code\<close> and its \<open>text\<close>.
  \<open>raise_for_status()\<close> raises \<open>HTTPError\<close> for the statuses 400 to 599 and for no
  other; \<open>ok\<close>, which is also \<open>bool(response)\<close>, is true when it does not raise.
\<close>

record response =
  status_code :: int
  resp_text :: string

definition raise_for_status :: "response \<Rightarrow> exn option" where
  "raise_for_status r =
     (if 400 \<le> status_code r \<and> status_code r < 600 then Some (Exception ''HTTPError'') else None)"

definition ok :: "response \<Rightarrow> bool" where
  "ok r = (raise_for_status r = None)"

datatype http_result = Raises exn | Response response

text \<open>
  The two call sites of \<open>requests.get\<close>: the page fetch of \<open>_fetch_url\<close> (timeout 10) and
  the robots.txt fetch of \<open>can_fetch\<close> (timeout 5).
\<close>

datatype net_call = GetPage string | GetRobots string

type_synonym network = "nat \<Rightarrow> net_call \<Rightarrow> http_result"

definition requests_get :: "network \<Rightarrow> net_call list \<Rightarrow> net_call \<Rightarrow> http_result \<times> net_call list" where
  "requests_get N log c = (N (length log) c, log @ [c])"

subsection \<open>Library functions\<close>

record 'r pylib =
  validators_url :: "string \<Rightarrow> bool"
  urlparse_netloc :: "string \<Rightarrow> exn + string"
  urlparse_path :: "string \<Rightarrow> string"
  urljoin :: "string \<Rightarrow> string \<Rightarrow> exn + string"
  BeautifulSoup :: "string \<Rightarrow> exn + soup"
  rerp_new :: "'r"
  rerp_parse :: "'r \<Rightarrow> string \<Rightarrow> 'r"
  rerp_is_allowed :: "'r \<Rightarrow> string \<Rightarrow> string \<Rightarrow> bool"

text \<open>
  \<open>validators_url u\<close> is \<open>validators.url(u) is True\<close>; \<open>urlparse_netloc\<close> and
  \<open>urljoin\<close> may raise (\<open>urllib.parse\<close> raises \<open>ValueError\<close> on unbalanced
  brackets in the network location); \<open>BeautifulSoup t\<close> is
  \<open>BeautifulSoup(t, 'html.parser')\<close>, which raises \<open>ParserRejectedMarkup\<close> on markup
  that \<open>html.parser\<close> rejects, such as \<open><![x]>\<close>; \<open>rerp_new\<close>, \<open>rerp_parse\<close> and \<open>rerp_is_allowed\<close>
  are the constructor, \<open>parse\<close> and \<open>is_allowed\<close> of \<open>RobotExclusionRulesParser\<close> over
  its state \<open>'r\<close>.
\<close>

subsection \<open>\<open>RobotsTxtChecker\<close>\<close>

text \<open>
  The checker holds one parser object and a dictionary from domains to parser objects.
  Objects live in a store, and the dictionary holds references, as in the source, where
  \<open>self.cache[domain] = self.parser\<close> stores a reference to the one parser.
\<close>

type_synonym ref = nat

record 'r RobotsTxtChecker =
  store :: "ref \<rightharpoonup> 'r"
  parser :: ref
  cache :: "string \<rightharpoonup> ref"

definition RobotsTxtChecker_init :: "'r pylib \<Rightarrow> 'r RobotsTxtChecker" where
  "RobotsTxtChecker_init L = \<lparr>store = [0 \<mapsto> rerp_new L], parser = 0, cache = Map.empty\<rparr>"

text \<open>\<open>self.parser.parse(text)\<close>: the object the reference points to is updated in place.\<close>

definition parser_parse :: "'r pylib \<Rightarrow> 'r RobotsTxtChecker \<Rightarrow> string \<Rightarrow> 'r RobotsTxtChecker" where
  "parser_parse L rc t =
     (case store rc (parser rc) of
        None \<Rightarrow> rc
      | Some r \<Rightarrow> rc\<lparr>store := (store rc)(parser rc \<mapsto> rerp_parse L r t)\<rparr>)"

text \<open>The body of the \<open>try\<close> of \<open>can_fetch\<close>, up to the cache update.\<close>

definition can_fetch_fill ::
  "'r pylib \<Rightarrow> network \<Rightarrow> 'r RobotsTxtChecker \<Rightarrow> net_call list \<Rightarrow> string
     \<Rightarrow> exn option \<times> 'r RobotsTxtChecker \<times> net_call list" where
  "can_fetch_fill L N rc log domain =
     (if cache rc domain = None then
        (case urljoin L (''https://'' @ domain) ''/robots.txt'' of
           Inl e \<Rightarrow> (Some e, rc, log)
         | Inr robots_url \<Rightarrow>
             (case requests_get N log (GetRobots robots_url) of
                (Raises e, log') \<Rightarrow> (Some e, rc, log')
              | (Response r, log') \<Rightarrow>
                  (let rc' = parser_parse L rc (resp_text r)
                   in (None, rc'\<lparr>cache := (cache rc')(domain \<mapsto> parser rc')\<rparr>, log'))))
      else (None, rc, log))"

text \<open>\<open>self.cache[domain].is_allowed(user_agent, url)\<close>.\<close>

definition cache_is_allowed :: "'r pylib \<Rightarrow> 'r RobotsTxtChecker \<Rightarrow> string \<Rightarrow> string \<Rightarrow> string \<Rightarrow> exn + bool" where
  "cache_is_allowed L rc domain user_agent u =
     (case cache rc domain of
        None \<Rightarrow> Inl (Exception ''KeyError'')
      | Some p \<Rightarrow>
          (case store rc p of
             None \<Rightarrow> Inl (Exception ''KeyError'')
           | Some r \<Rightarrow> Inr (rerp_is_allowed L r user_agent u)))"

text \<open>\<open>can_fetch\<close>: any exception of the body is logged and answered with \<open>True\<close>.\<close>

definition can_fetch ::
  "'r pylib \<Rightarrow> network \<Rightarrow> 'r RobotsTxtChecker \<Rightarrow> net_call list \<Rightarrow> string \<Rightarrow> string
     \<Rightarrow> bool \<times> 'r RobotsTxtChecker \<times> net_call list" where
  "can_fetch L N rc log u user_agent =
     (case urlparse_netloc L u of
        Inl e \<Rightarrow> (True, rc, log)
      | Inr domain \<Rightarrow>
          (case can_fetch_fill L N rc log domain of
             (Some e, rc', log') \<Rightarrow> (True, rc', log')
           | (None, rc', log') \<Rightarrow>
               (case cache_is_allowed L rc' domain user_agent u of
                  Inl e \<Rightarrow> (True, rc', log')
                | Inr b \<Rightarrow> (b, rc', log'))))"

subsection \<open>\<open>WebScraper\<close>\<close>

record 'r WebScraper =
  config :: ScrapingConfig
  robots_checker :: "'r RobotsTxtChecker"
  visited_urls :: "string set"

definition WebScraper_init :: "'r pylib \<Rightarrow> ScrapingConfig option \<Rightarrow> 'r WebScraper" where
  "WebScraper_init L cfg =
     \<lparr>config = (case cfg of None \<Rightarrow> ScrapingConfig_default | Some c \<Rightarrow> c),
      robots_checker = RobotsTxtChecker_init L,
      visited_urls = {}\<rparr>"

text \<open>
  \<open>_fetch_url\<close>: one \<open>requests.get\<close>, then \<open>raise_for_status()\<close>; any exception is
  logged and gives \<open>None\<close>. The decorators \<open>sleep_and_retry\<close> and \<open>limits(calls=1, period=1)\<close> delay the
  call and do not change what it returns; time is not part of this model.
\<close>

definition fetch_url :: "network \<Rightarrow> net_call list \<Rightarrow> string \<Rightarrow> response option \<times> net_call list" where
  "fetch_url N log u =
     (case requests_get N log (GetPage u) of
        (Raises e, log') \<Rightarrow> (None, log')
      | (Response r, log') \<Rightarrow>
          (case raise_for_status r of
             Some e \<Rightarrow> (None, log')
           | None \<Rightarrow> (Some r, log')))"

definition is_valid_url :: "'r pylib \<Rightarrow> string \<Rightarrow> bool" where
  "is_valid_url L u = validators_url L u"

text \<open>\<open>s.endswith(suf)\<close> and \<open>s.endswith((a, b, ...))\<close>.\<close>

definition endswith :: "string \<Rightarrow> string \<Rightarrow> bool" where
  "endswith s suf = (length suf \<le> length s \<and> drop (length s - length suf) s = suf)"

definition endswith_any :: "string \<Rightarrow> string list \<Rightarrow> bool" where
  "endswith_any s sufs = list_ex (endswith s) sufs"

definition binary_exts :: "string list" where
  "binary_exts = [''.pdf'', ''.zip'', ''.png'', ''.jpg'']"

text \<open>\<open>soup.find_all('a', href=True)\<close> followed by \<open>link['href']\<close>.\<close>

definition anchor_hrefs :: "soup \<Rightarrow> string list" where
  "anchor_hrefs sp = concat (map (\<lambda>t. if tag_name t = ''a'' then (case tag_href t of None \<Rightarrow> [] | Some h \<Rightarrow> [h]) else []) sp)"

text \<open>The loop of \<open>_extract_links\<close>, with \<open>links\<close> the list built so far.\<close>

fun extract_links_loop ::
  "'r pylib \<Rightarrow> string set \<Rightarrow> string \<Rightarrow> string \<Rightarrow> string list \<Rightarrow> string list \<Rightarrow> exn + string list" where
  "extract_links_loop L visited b base_domain [] links = Inr links"
| "extract_links_loop L visited b base_domain (href # hrefs) links =
     (case urljoin L b href of
        Inl e \<Rightarrow> Inl e
      | Inr full_url \<Rightarrow>
          (case urlparse_netloc L full_url of
             Inl e \<Rightarrow> Inl e
           | Inr d \<Rightarrow>
               extract_links_loop L visited b base_domain hrefs
                 (if d = base_domain \<and> full_url \<notin> visited \<and> \<not> endswith_any full_url binary_exts
                  then links @ [full_url] else links)))"

definition extract_links :: "'r pylib \<Rightarrow> string set \<Rightarrow> soup \<Rightarrow> string \<Rightarrow> exn + string list" where
  "extract_links L visited sp b =
     (case urlparse_netloc L b of
        Inl e \<Rightarrow> Inl e
      | Inr base_domain \<Rightarrow> extract_links_loop L visited b base_domain (anchor_hrefs sp) [])"

text \<open>
  \<open>str.strip()\<close>. A \<open>char\<close> stands for a code point below 256; the ones for which
  \<open>str.isspace\<close> holds are 9 to 13, 28 to 32, 133 and 160. Text with code points from
  256 on is outside this model.
\<close>

definition is_space :: "char \<Rightarrow> bool" where
  "is_space c =
     (c \<in> set [CHR 0x09, CHR 0x0A, CHR 0x0B, CHR 0x0C, CHR 0x0D, CHR 0x1C, CHR 0x1D, CHR 0x1E,
                CHR 0x1F, CHR 0x20, CHR 0x85, CHR 0xA0])"

definition strip :: "string \<Rightarrow> string" where
  "strip s = rev (dropWhile is_space (rev (dropWhile is_space s)))"

text \<open>\<open>int(heading.name[1])\<close> for the names \<open>h1\<close> to \<open>h4\<close> that \<open>find_all\<close> selects.\<close>

definition heading_level :: "string \<Rightarrow> nat option" where
  "heading_level n =
     (if n = ''h1'' then Some 1 else if n = ''h2'' then Some 2
      else if n = ''h3'' then Some 3 else if n = ''h4'' then Some 4 else None)"

definition nonempty_texts :: "string \<Rightarrow> soup \<Rightarrow> string list" where
  "nonempty_texts n sp = filter (\<lambda>t. t \<noteq> []) (map (\<lambda>t. strip (tag_text t)) (filter (\<lambda>t. tag_name t = n) sp))"

definition extract_content :: "soup \<Rightarrow> Content" where
  "extract_content sp =
     \<lparr>title = (case filter (\<lambda>t. tag_name t = ''title'') sp of [] \<Rightarrow> [] | t # _ \<Rightarrow> strip (tag_text t)),
      headings = concat (map (\<lambda>t. case heading_level (tag_name t) of
                                      None \<Rightarrow> []
                                    | Some l \<Rightarrow> [\<lparr>level = l, htext = strip (tag_text t)\<rparr>]) sp),
      paragraphs = nonempty_texts ''p'' sp,
      code_blocks = nonempty_texts ''code'' sp\<rparr>"

text \<open>\<open>xs[:k]\<close> for a Python integer \<open>k\<close>: a negative \<open>k\<close> counts from the end.\<close>

definition slice_to :: "'a list \<Rightarrow> int \<Rightarrow> 'a list" where
  "slice_to xs k = (if 0 \<le> k then take (nat k) xs else take (nat (int (length xs) + k)) xs)"

text \<open>
  The \<open>for link in links_to_scrape\<close> loop of \<open>scrape\<close>; its state is the visited set, the
  pages appended so far and the network log. \<open>if response\<close> is false for \<open>None\<close> and
  for a response that is not \<open>ok\<close>. \<open>BeautifulSoup\<close> may raise in the loop: the
  exception leaves it, with the state as it is at that moment.
\<close>

fun scrape_links ::
  "'r pylib \<Rightarrow> network \<Rightarrow> int \<Rightarrow> string list \<Rightarrow> string set \<times> PageRecord list \<times> net_call list
     \<Rightarrow> exn option \<times> string set \<times> PageRecord list \<times> net_call list" where
  "scrape_links L N mp [] st = (None, st)"
| "scrape_links L N mp (link # links) (visited, pgs, log) =
     (if mp \<le> int (card visited) then (None, visited, pgs, log)
      else if link \<notin> visited then
        (case fetch_url N log link of
           (None, log') \<Rightarrow> scrape_links L N mp links (visited, pgs, log')
         | (Some response, log') \<Rightarrow>
             (if ok response then
                (case BeautifulSoup L (resp_text response) of
                   Inl e \<Rightarrow> (Some e, visited, pgs, log')
                 | Inr soup \<Rightarrow>
                     scrape_links L N mp links
                       (insert link visited,
                        pgs @ [\<lparr>url = link, content = extract_content soup\<rparr>],
                        log'))
              else scrape_links L N mp links (visited, pgs, log')))
      else scrape_links L N mp links (visited, pgs, log))"

text \<open>
  The body of the \<open>try\<close> of \<open>scrape\<close>: the exception that left it, if any, together with
  the visited set, the pages and the log as they are at that moment. \<open>if not
  main_response\<close> holds for \<open>None\<close> and for a response that is not \<open>ok\<close>. The seed page
  is parsed before the seed enters the visited set and the pages.
\<close>

definition scrape_try ::
  "'r pylib \<Rightarrow> network \<Rightarrow> ScrapingConfig \<Rightarrow> string set \<Rightarrow> net_call list \<Rightarrow> string
     \<Rightarrow> exn option \<times> string set \<times> PageRecord list \<times> net_call list" where
  "scrape_try L N cfg visited log u =
     (case fetch_url N log u of
        (None, log1) \<Rightarrow>
          (Some (Exception (''Failed to fetch main URL: '' @ u)), visited, [], log1)
      | (Some main_response, log1) \<Rightarrow>
          (if \<not> ok main_response then
             (Some (Exception (''Failed to fetch main URL: '' @ u)), visited, [], log1)
           else
             (case BeautifulSoup L (resp_text main_response) of
                Inl e \<Rightarrow> (Some e, visited, [], log1)
              | Inr main_soup \<Rightarrow>
                  (let visited1 = insert u visited;
                       pgs1 = [\<lparr>url = u, content = extract_content main_soup\<rparr>]
                   in if scrape_multiple_pages cfg then
                        (case extract_links L visited1 main_soup u of
                           Inl e \<Rightarrow> (Some e, visited1, pgs1, log1)
                         | Inr links_to_scrape \<Rightarrow>
                             scrape_links L N (max_pages cfg)
                               (slice_to links_to_scrape (max_pages cfg - 1)) (visited1, pgs1, log1))
                      else (None, visited1, pgs1, log1)))))"

text \<open>
  \<open>scrape\<close>: the result or the raised exception, the scraper afterwards and the log
  afterwards. \<open>respect_robots_txt and not can_fetch(url)\<close> calls \<open>can_fetch\<close> only when the
  flag is set.
\<close>

definition robots_gate ::
  "'r pylib \<Rightarrow> network \<Rightarrow> 'r WebScraper \<Rightarrow> net_call list \<Rightarrow> string
     \<Rightarrow> bool \<times> 'r RobotsTxtChecker \<times> net_call list" where
  "robots_gate L N ws log u =
     (if respect_robots_txt (config ws) then can_fetch L N (robots_checker ws) log u ''*''
      else (True, robots_checker ws, log))"

definition scrape ::
  "'r pylib \<Rightarrow> network \<Rightarrow> 'r WebScraper \<Rightarrow> net_call list \<Rightarrow> string
     \<Rightarrow> (exn + CrawlResult) \<times> 'r WebScraper \<times> net_call list" where
  "scrape L N ws log u =
     (if \<not> is_valid_url L u then (Inl (ValueError (''Invalid URL: '' @ u)), ws, log)
      else
        (case robots_gate L N ws log u of
           (allowed, rc1, log1) \<Rightarrow>
             (if \<not> allowed then
                (Inl (PermissionError (''robots.txt disallows scraping: '' @ u)),
                 ws\<lparr>robots_checker := rc1\<rparr>, log1)
              else
                (case scrape_try L N (config ws) (visited_urls ws) log1 u of
                   (e, visited2, pgs, log2) \<Rightarrow>
                     (Inr \<lparr>base_url = u, pages = pgs, error = map_option str e\<rparr>,
                      ws\<lparr>robots_checker := rc1, visited_urls := visited2\<rparr>, log2)))))"

subsection \<open>The order and the filter of \<open>_extract_links\<close>, as a predicate\<close>


subsection \<open>An example environment\<close>

text \<open>
  A small library and network on which the theorems below are run. The URL functions
  agree with \<open>urllib.parse\<close> (CPython 3.11) on the strings used here: \<open>http\<close> and
  \<open>https\<close> URLs in normal form, references that are an absolute path, and the
  strings \<open>foo\<close> and \<open>d\<close> without scheme and network location. On them,
  \<open>urlparse(u).netloc\<close> is what lies between \<open>://\<close> and the next \<open>/\<close>, \<open>?\<close> or \<open>#\<close>
  (empty without \<open>://\<close>), and raises \<open>ValueError('Invalid IPv6 URL')\<close> when it holds
  one square bracket without the other; \<open>urlparse(u).path\<close> runs from there to the next
  \<open>?\<close> or \<open>#\<close>; \<open>urljoin(b, h)\<close> parses \<open>h\<close> (and raises as \<open>urlparse\<close> does),
  returns \<open>h\<close> when it has a network location, puts scheme and network location of
  \<open>b\<close> before an absolute path, and gives \<open>d\<close> for \<open>urljoin('foo', 'd')\<close>. Other
  relative references, to be resolved against the path of the base, do not occur below.
\<close>

definition ex_after_scheme :: "string \<Rightarrow> string option" where
  "ex_after_scheme u =
     (if take 8 u = ''https://'' then Some (drop 8 u)
      else if take 7 u = ''http://'' then Some (drop 7 u) else None)"

definition ex_netloc :: "string \<Rightarrow> exn + string" where
  "ex_netloc u =
     (case ex_after_scheme u of
        None \<Rightarrow> Inr []
      | Some r \<Rightarrow>
          (let n = takeWhile (\<lambda>c. c \<notin> set ''/?#'') r
           in if (CHR ''['' \<in> set n) \<noteq> (CHR '']'' \<in> set n)
              then Inl (ValueError ''Invalid IPv6 URL'') else Inr n))"

definition ex_path :: "string \<Rightarrow> string" where
  "ex_path u =
     takeWhile (\<lambda>c. c \<notin> set ''?#'')
       (case ex_after_scheme u of
          None \<Rightarrow> u
        | Some r \<Rightarrow> dropWhile (\<lambda>c. c \<notin> set ''/?#'') r)"

definition ex_root :: "string \<Rightarrow> string" where
  "ex_root b =
     (case ex_after_scheme b of
        None \<Rightarrow> []
      | Some r \<Rightarrow> take (length b - length (dropWhile (\<lambda>c. c \<notin> set ''/?#'') r)) b)"

definition ex_urljoin :: "string \<Rightarrow> string \<Rightarrow> exn + string" where
  "ex_urljoin b h =
     (case ex_netloc h of
        Inl e \<Rightarrow> Inl e
      | Inr n \<Rightarrow> if n = [] \<and> take 1 h = ''/'' then Inr (ex_root b @ h) else Inr h)"

text \<open>
  \<open>validators.url\<close> accepts \<open>https://example.com/\<close> and its like and rejects
  \<open>not a url\<close>; the example validator asks for a network location and no blank.
\<close>

definition ex_valid :: "string \<Rightarrow> bool" where
  "ex_valid u = (case ex_netloc u of Inl e \<Rightarrow> False | Inr n \<Rightarrow> n \<noteq> [] \<and> CHR '' '' \<notin> set u)"

text \<open>
  The robots parser of the example keeps the text it parsed last. The text
  \<open>User-agent: *\<close>, newline, \<open>Disallow: /\<close> forbids every URL to every agent; the
  only other robots.txt served below, with an empty \<open>Disallow:\<close>, allows everything.
\<close>

definition deny_all :: string where
  "deny_all = ''User-agent: *'' @ [CHR 0x0A] @ ''Disallow: /''"

definition allow_all :: string where
  "allow_all = ''User-agent: *'' @ [CHR 0x0A] @ ''Disallow:''"

text \<open>
  The documents used below, and their tags as \<open>html.parser\<close> finds them; the other
  bodies served below are plain text without tags. Markup that the parser rejects does
  not occur below.
\<close>

definition ex_anchor :: "string \<Rightarrow> string \<Rightarrow> tag" where
  "ex_anchor h t = \<lparr>tag_name = ''a'', tag_href = Some h, tag_text = t\<rparr>"

definition ex_html :: "string \<Rightarrow> exn + soup" where
  "ex_html t =
     (if t = ''<a href=/b>b</a><a href=/b>b</a><a href=/c>c</a>'' then
        Inr [ex_anchor ''/b'' ''b'', ex_anchor ''/b'' ''b'', ex_anchor ''/c'' ''c'']
      else if t = ''<a href=http://[>x</a>'' then
        Inr [ex_anchor ''http://['' ''x'']
      else Inr [])"

definition ex_lib :: "string pylib" where
  "ex_lib =
     \<lparr>validators_url = ex_valid, urlparse_netloc = ex_netloc, urlparse_path = ex_path,
      urljoin = ex_urljoin, BeautifulSoup = ex_html,
      rerp_new = [], rerp_parse = (\<lambda>r t. t), rerp_is_allowed = (\<lambda>r ua u. r \<noteq> deny_all)\<rparr>"

text \<open>
  The example network answers by URL alone: three pages of \<open>example.com\<close>, one page of
  \<open>example.org\<close> with a malformed link, an answer with status 304 and an empty body
  for \<open>example.net\<close>, the robots.txt of \<open>a.example\<close> (forbids all) and of \<open>b.example\<close>
  (allows all); every other request fails.
\<close>

definition ex_net :: network where
  "ex_net n c =
     (if c = GetPage ''https://example.com/'' then
        Response \<lparr>status_code = 200,
                  resp_text = ''<a href=/b>b</a><a href=/b>b</a><a href=/c>c</a>''\<rparr>
      else if c = GetPage ''https://example.com/b'' then
        Response \<lparr>status_code = 200, resp_text = ''b''\<rparr>
      else if c = GetPage ''https://example.com/c'' then
        Response \<lparr>status_code = 200, resp_text = ''c''\<rparr>
      else if c = GetPage ''https://example.org/'' then
        Response \<lparr>status_code = 200, resp_text = ''<a href=http://[>x</a>''\<rparr>
      else if c = GetPage ''https://example.net/'' then
        Response \<lparr>status_code = 304, resp_text = []\<rparr>
      else if c = GetRobots ''https://a.example/robots.txt'' then
        Response \<lparr>status_code = 200, resp_text = deny_all\<rparr>
      else if c = GetRobots ''https://b.example/robots.txt'' then
        Response \<lparr>status_code = 200, resp_text = allow_all\<rparr>
      else Raises (Exception ''ConnectionError''))"

definition ex_config :: "int \<Rightarrow> bool \<Rightarrow> ScrapingConfig" where
  "ex_config mp rr =
     \<lparr>max_pages = mp, rate_limit = 1, respect_robots_txt = rr, scrape_multiple_pages = True\<rparr>"

definition ex_scraper :: "int \<Rightarrow> bool \<Rightarrow> string WebScraper" where
  "ex_scraper mp rr = WebScraper_init ex_lib (Some (ex_config mp rr))"

definition ex_page :: "string \<Rightarrow> PageRecord" where
  "ex_page u = \<lparr>url = u, content = \<lparr>title = [], headings = [], paragraphs = [], code_blocks = []\<rparr>\<rparr>"

section \<open>Lemmas\<close>

subsection \<open>The page fetch\<close>

lemma fetch_url_log: "snd (fetch_url N lg u) = lg @ [GetPage u]"
  by (simp add: fetch_url_def requests_get_def split: http_result.splits option.splits)


lemma fetch_url_None:
  "fst (fetch_url N lg u) = None \<longleftrightarrow>
     (case N (length lg) (GetPage u) of
        Raises e \<Rightarrow> True
      | Response r \<Rightarrow> 400 \<le> status_code r \<and> status_code r < 600)"
  by (simp add: fetch_url_def requests_get_def raise_for_status_def
           split: http_result.splits option.splits)

subsection \<open>The loop over the candidate links\<close>

text \<open>
  What the loop adds: pages \<open>Q\<close> and page requests \<open>fs\<close>, both only for links outside the
  visited set it starts from.
\<close>

lemma scrape_links_inv:
  "scrape_links L N mp links (V, P, lg) = (eo, V', P', lg') \<Longrightarrow>
     \<exists>Q fs. P' = P @ Q \<and> distinct (map url Q) \<and> set (map url Q) \<inter> V = {} \<and>
         V' = V \<union> set (map url Q) \<and> set (map url Q) \<subseteq> set links \<and> length Q \<le> length links \<and>
         lg' = lg @ map GetPage fs \<and> set fs \<inter> V = {} \<and> set fs \<subseteq> set links"
proof (induction links arbitrary: V P lg)
  case Nil
  then show ?case by simp
next
  case (Cons link links)
  show ?case
  proof (cases "mp \<le> int (card V)")
    case True
    with Cons.prems show ?thesis by simp
  next
    case brk: False
    show ?thesis
    proof (cases "link \<in> V")
      case True
      with brk Cons.prems have "scrape_links L N mp links (V, P, lg) = (eo, V', P', lg')" by simp
      from Cons.IH [OF this] show ?thesis by fastforce
    next
      case nv: False
      obtain ro where f: "fetch_url N lg link = (ro, lg @ [GetPage link])"
        using fetch_url_log [of N lg link] by (cases "fetch_url N lg link") simp
      let ?lg1 = "lg @ [GetPage link]"
      have skip: ?thesis if "scrape_links L N mp links (V, P, ?lg1) = (eo, V', P', lg')"
      proof -
        from Cons.IH [OF that] obtain Q fs where
          Q: "P' = P @ Q" "distinct (map url Q)" "set (map url Q) \<inter> V = {}"
             "V' = V \<union> set (map url Q)" "set (map url Q) \<subseteq> set links"
             "length Q \<le> length links" "lg' = ?lg1 @ map GetPage fs"
             "set fs \<inter> V = {}" "set fs \<subseteq> set links" by blast
        show ?thesis
        proof (intro exI [of _ Q] exI [of _ "link # fs"] conjI)
          show "lg' = lg @ map GetPage (link # fs)" using Q(7) by simp
          show "set (link # fs) \<inter> V = {}" using Q(8) nv by auto
          show "set (link # fs) \<subseteq> set (link # links)" using Q(9) by auto
          show "set (map url Q) \<subseteq> set (link # links)" using Q(5) by auto
          show "length Q \<le> length (link # links)" using Q(6) by simp
        qed (use Q in auto)
      qed
      show ?thesis
      proof (cases ro)
        case None
        with brk nv f Cons.prems show ?thesis by (intro skip) simp
      next
        case (Some r)
        show ?thesis
        proof (cases "ok r")
          case False
          with Some brk nv f Cons.prems show ?thesis by (intro skip) simp
        next
          case okr: True
          show ?thesis
          proof (cases "BeautifulSoup L (resp_text r)")
            case (Inl e)
            with okr Some brk nv f Cons.prems
            have "P' = P" "V' = V" "lg' = ?lg1" by simp_all
            then show ?thesis
              using nv by (intro exI [of _ "[]"] exI [of _ "[link]"]) simp
          next
            case (Inr sp)
            let ?pg = "\<lparr>url = link, content = extract_content sp\<rparr>"
            from Inr okr Some brk nv f Cons.prems
            have "scrape_links L N mp links (insert link V, P @ [?pg], ?lg1) = (eo, V', P', lg')"
              by simp
            from Cons.IH [OF this] obtain Q fs where
              Q: "P' = (P @ [?pg]) @ Q" "distinct (map url Q)"
                 "set (map url Q) \<inter> insert link V = {}"
                 "V' = insert link V \<union> set (map url Q)" "set (map url Q) \<subseteq> set links"
                 "length Q \<le> length links" "lg' = ?lg1 @ map GetPage fs"
                 "set fs \<inter> insert link V = {}" "set fs \<subseteq> set links" by blast
            show ?thesis
            proof (intro exI [of _ "?pg # Q"] exI [of _ "link # fs"] conjI)
              show "P' = P @ ?pg # Q" using Q(1) by simp
              show "distinct (map url (?pg # Q))" using Q(2,3) by auto
              show "set (map url (?pg # Q)) \<inter> V = {}" using Q(3) nv by auto
              show "V' = V \<union> set (map url (?pg # Q))" using Q(4) by auto
              show "set (map url (?pg # Q)) \<subseteq> set (link # links)" using Q(5) by auto
              show "length (?pg # Q) \<le> length (link # links)" using Q(6) by simp
              show "lg' = lg @ map GetPage (link # fs)" using Q(7) by simp
              show "set (link # fs) \<inter> V = {}" using Q(8) nv by auto
              show "set (link # fs) \<subseteq> set (link # links)" using Q(9) by auto
            qed
          qed
        qed
      qed
    qed
  qed
qed


lemma length_slice_to: "0 \<le> k \<Longrightarrow> int (length (slice_to xs k)) \<le> k"
  by (simp add: slice_to_def)


subsection \<open>The body of the \<open>try\<close>\<close>

text \<open>The shapes the state can have when the \<open>try\<close> block is left.\<close>

lemma scrape_try_cases:
  assumes "scrape_try L N cfg V lg u = (e, V', P, lg')"
  shows "(P = [] \<and> V' = V \<and> e \<noteq> None \<and> lg' = lg @ [GetPage u])
         \<or> (\<exists>c Q fs. P = \<lparr>url = u, content = c\<rparr> # Q \<and> distinct (map url Q)
              \<and> set (map url Q) \<inter> insert u V = {} \<and> V' = insert u V \<union> set (map url Q)
              \<and> (0 < max_pages cfg \<longrightarrow> int (length Q) \<le> max_pages cfg - 1)
              \<and> lg' = lg @ GetPage u # map GetPage fs \<and> set fs \<inter> insert u V = {})"
proof -
  let ?lg1 = "lg @ [GetPage u]"
  obtain ro where f: "fetch_url N lg u = (ro, ?lg1)"
    using fetch_url_log [of N lg u] by (cases "fetch_url N lg u") simp
  show ?thesis
  proof (cases ro)
    case None
    with f assms show ?thesis by (auto simp: scrape_try_def)
  next
    case (Some r)
    show ?thesis
    proof (cases "ok r")
      case False
      with Some f assms show ?thesis by (auto simp: scrape_try_def)
    next
      case okr: True
      show ?thesis
      proof (cases "BeautifulSoup L (resp_text r)")
        case (Inl x)
        with okr Some f assms show ?thesis by (auto simp: scrape_try_def)
      next
        case sp: (Inr sp)
        let ?pg = "\<lparr>url = u, content = extract_content sp\<rparr>"
        show ?thesis
        proof (cases "scrape_multiple_pages cfg")
          case False
          with sp okr Some f assms have "P = [?pg]" "V' = insert u V" "lg' = ?lg1"
            by (simp_all add: scrape_try_def Let_def)
          then show ?thesis by (intro disjI2 exI [of _ "[]"] exI [of _ "extract_content sp"]) simp
        next
          case multi: True
          show ?thesis
          proof (cases "extract_links L (insert u V) sp u")
            case (Inl x)
            with multi sp okr Some f assms have "P = [?pg]" "V' = insert u V" "lg' = ?lg1"
              by (simp_all add: scrape_try_def Let_def)
            then show ?thesis by (intro disjI2 exI [of _ "[]"] exI [of _ "extract_content sp"]) simp
          next
            case (Inr links)
            let ?cut = "slice_to links (max_pages cfg - 1)"
            from Inr multi sp okr Some f assms
            have "scrape_links L N (max_pages cfg) ?cut (insert u V, [?pg], ?lg1) = (e, V', P, lg')"
              by (simp add: scrape_try_def Let_def)
            from scrape_links_inv [OF this] obtain Q fs where
              Q: "P = [?pg] @ Q" "distinct (map url Q)" "set (map url Q) \<inter> insert u V = {}"
                 "V' = insert u V \<union> set (map url Q)" "length Q \<le> length ?cut"
                 "lg' = ?lg1 @ map GetPage fs" "set fs \<inter> insert u V = {}" by blast
            have "0 < max_pages cfg \<longrightarrow> int (length Q) \<le> max_pages cfg - 1"
              using Q(5) length_slice_to [of "max_pages cfg - 1" links] by auto
            with Q show ?thesis
              by (intro disjI2 exI [of _ Q] exI [of _ fs] exI [of _ "extract_content sp"]) simp
          qed
        qed
      qed
    qed
  qed
qed

text \<open>What \<open>scrape\<close> returns when it returns a result.\<close>

lemma scrape_Inr:
  assumes "fst (scrape L N ws log u) = Inr res"
  shows "\<exists>e V' lg'. scrape_try L N (config ws) (visited_urls ws) (snd (snd (robots_gate L N ws log u))) u
                       = (e, V', pages res, lg')
                  \<and> error res = map_option str e \<and> base_url res = u
                  \<and> visited_urls (fst (snd (scrape L N ws log u))) = V'
                  \<and> snd (snd (scrape L N ws log u)) = lg'
                  \<and> is_valid_url L u \<and> fst (robots_gate L N ws log u)"
proof -
  obtain a rc1 log1 where g: "robots_gate L N ws log u = (a, rc1, log1)"
    by (cases "robots_gate L N ws log u")
  obtain e V' P lg' where t: "scrape_try L N (config ws) (visited_urls ws) log1 u = (e, V', P, lg')"
    by (cases "scrape_try L N (config ws) (visited_urls ws) log1 u")
  from assms g t show ?thesis
    by (auto simp: scrape_def split: if_splits)
qed

subsection \<open>The robots cache\<close>

lemma can_fetch_miss_log:
  assumes "urlparse_netloc L u = Inr domain" and "cache rc domain = None"
    and "urljoin L (''https://'' @ domain) ''/robots.txt'' = Inr robots_url"
  shows "snd (snd (can_fetch L N rc log u ua)) = log @ [GetRobots robots_url]"
  using assms
  by (simp add: can_fetch_def can_fetch_fill_def requests_get_def Let_def
           split: http_result.splits sum.splits)

lemma can_fetch_hit:
  assumes "urlparse_netloc L u = Inr domain" and "cache rc domain \<noteq> None"
  shows "snd (can_fetch L N rc log u ua) = (rc, log)"
  using assms
  by (auto simp add: can_fetch_def can_fetch_fill_def split: sum.splits)


lemma can_fetch_log:
  "\<exists>rs. snd (snd (can_fetch L N rc log u ua)) = log @ map GetRobots rs"
proof (cases "urlparse_netloc L u")
  case (Inl e)
  then have "snd (snd (can_fetch L N rc log u ua)) = log @ map GetRobots []"
    by (simp add: can_fetch_def)
  then show ?thesis by blast
next
  case (Inr domain)
  show ?thesis
  proof (cases "cache rc domain = None")
    case False
    with Inr have "snd (snd (can_fetch L N rc log u ua)) = log @ map GetRobots []"
      by (simp add: can_fetch_hit)
    then show ?thesis by blast
  next
    case miss: True
    show ?thesis
    proof (cases "urljoin L (''https://'' @ domain) ''/robots.txt''")
      case (Inl e)
      with Inr miss have "snd (snd (can_fetch L N rc log u ua)) = log @ map GetRobots []"
        by (simp add: can_fetch_def can_fetch_fill_def)
      then show ?thesis by blast
    next
      case j: (Inr robots_url)
      from can_fetch_miss_log [OF Inr miss j]
      have "snd (snd (can_fetch L N rc log u ua)) = log @ map GetRobots [robots_url]" by simp
      then show ?thesis by blast
    qed
  qed
qed

text \<open>The parser object of a checker stays in the store.\<close>

lemma can_fetch_parser_alive:
  assumes "store rc (parser rc) \<noteq> None"
  shows "store (fst (snd (can_fetch L N rc log u ua))) (parser (fst (snd (can_fetch L N rc log u ua)))) \<noteq> None"
  using assms
  by (auto simp add: can_fetch_def can_fetch_fill_def requests_get_def parser_parse_def Let_def
           split: sum.splits http_result.splits option.splits if_splits)

subsection \<open>The requests of \<open>scrape\<close>\<close>

lemma robots_gate_log:
  "\<exists>rs. snd (snd (robots_gate L N ws log u)) = log @ map GetRobots rs"
proof (cases "respect_robots_txt (config ws)")
  case True
  with can_fetch_log [of L N "robots_checker ws" log u "''*''"] show ?thesis
    by (simp add: robots_gate_def)
next
  case False
  then have "snd (snd (robots_gate L N ws log u)) = log @ map GetRobots []"
    by (simp add: robots_gate_def)
  then show ?thesis by blast
qed

lemma scrape_Inl:
  assumes "fst (scrape L N ws log u) = Inl e"
  shows "visited_urls (fst (snd (scrape L N ws log u))) = visited_urls ws"
    and "snd (snd (scrape L N ws log u)) = log
         \<or> snd (snd (scrape L N ws log u)) = snd (snd (robots_gate L N ws log u))"
  using assms by (auto simp: scrape_def split: if_splits prod.splits)

subsection \<open>The link extractor\<close>



section \<open>Runs of the example\<close>

lemma ex_scrape_2:
  "fst (scrape ex_lib ex_net (ex_scraper 2 False) [] ''https://example.com/'')
     = Inr \<lparr>base_url = ''https://example.com/'',
            pages = [ex_page ''https://example.com/'', ex_page ''https://example.com/b''],
            error = None\<rparr>"
  by code_simp

lemma ex_scrape_10:
  "fst (scrape ex_lib ex_net (ex_scraper 10 False) [] ''https://example.com/'')
     = Inr \<lparr>base_url = ''https://example.com/'',
            pages = [ex_page ''https://example.com/'', ex_page ''https://example.com/b'',
                     ex_page ''https://example.com/c''],
            error = None\<rparr>"
  by code_simp

lemma ex_down_gate: "fst (robots_gate ex_lib ex_net (ex_scraper 3 True) [] ''https://down.example/'')"
  by code_simp

lemma ex_revisit:
  "fst (scrape ex_lib ex_net ((ex_scraper 10 False)\<lparr>visited_urls := {''https://example.com/c''}\<rparr>) []
          ''https://example.com/'')
     = Inr \<lparr>base_url = ''https://example.com/'',
            pages = [ex_page ''https://example.com/'', ex_page ''https://example.com/b''],
            error = None\<rparr>"
  by code_simp

lemma ex_revisit_log:
  "snd (snd (scrape ex_lib ex_net ((ex_scraper 10 False)\<lparr>visited_urls := {''https://example.com/c''}\<rparr>) []
          ''https://example.com/''))
     = [GetPage ''https://example.com/'', GetPage ''https://example.com/b'']"
  by code_simp


section \<open>The claims\<close>

text \<open>
  C1. For every configuration with positive \<open>max_pages\<close> and every invocation of
  \<open>scrape\<close> that returns a result, the \<open>pages\<close> list has at most \<open>max_pages\<close> entries,
  however many candidate links the seed page contains. (\<open>scrape\<close> is a total function:
  an invocation either raises, the \<open>Inl\<close>, or returns a result.)
\<close>

theorem scrape_pages_le_max_pages:
  assumes "0 < max_pages (config ws)" and "fst (scrape L N ws log u) = Inr res"
  shows "int (length (pages res)) \<le> max_pages (config ws)"
proof -
  from scrape_Inr [OF assms(2)] obtain e V' lg' where
    "scrape_try L N (config ws) (visited_urls ws) (snd (snd (robots_gate L N ws log u))) u
       = (e, V', pages res, lg')" by blast
  from scrape_try_cases [OF this] assms(1) show ?thesis by auto
qed

theorem scrape_pages_le_max_pages_witness:
  "0 < max_pages (config (ex_scraper 2 False)) \<and>
   fst (scrape ex_lib ex_net (ex_scraper 2 False) [] ''https://example.com/'')
     = Inr \<lparr>base_url = ''https://example.com/'',
            pages = [ex_page ''https://example.com/'', ex_page ''https://example.com/b''],
            error = None\<rparr> \<and>
   int (length [ex_page ''https://example.com/'', ex_page ''https://example.com/b''])
     \<le> max_pages (config (ex_scraper 2 False))"
proof -
  have h: "0 < max_pages (config (ex_scraper 2 False))" by code_simp
  from scrape_pages_le_max_pages [OF h ex_scrape_2] h ex_scrape_2 show ?thesis by simp
qed

text \<open>
  C2. No two entries of the returned \<open>pages\<close> list have the same \<open>url\<close>, whatever the
  visited set was before the call and whatever the seed page links to; the example run
  has the candidate \<open>/b\<close> twice in the seed page.
\<close>

theorem scrape_pages_distinct_urls:
  assumes "fst (scrape L N ws log u) = Inr res"
  shows "distinct (map url (pages res))"
proof -
  from scrape_Inr [OF assms] obtain e V' lg' where
    "scrape_try L N (config ws) (visited_urls ws) (snd (snd (robots_gate L N ws log u))) u
       = (e, V', pages res, lg')" by blast
  from scrape_try_cases [OF this] show ?thesis by auto
qed

theorem scrape_pages_distinct_urls_witness:
  "BeautifulSoup ex_lib ''<a href=/b>b</a><a href=/b>b</a><a href=/c>c</a>''
     = Inr [ex_anchor ''/b'' ''b'', ex_anchor ''/b'' ''b'', ex_anchor ''/c'' ''c''] \<and>
   anchor_hrefs [ex_anchor ''/b'' ''b'', ex_anchor ''/b'' ''b'', ex_anchor ''/c'' ''c'']
     = [''/b'', ''/b'', ''/c''] \<and>
   fst (scrape ex_lib ex_net (ex_scraper 10 False) [] ''https://example.com/'')
     = Inr \<lparr>base_url = ''https://example.com/'',
            pages = [ex_page ''https://example.com/'', ex_page ''https://example.com/b'',
                     ex_page ''https://example.com/c''],
            error = None\<rparr> \<and>
   distinct (map url [ex_page ''https://example.com/'', ex_page ''https://example.com/b'',
                      ex_page ''https://example.com/c''])"
proof -
  have b: "BeautifulSoup ex_lib ''<a href=/b>b</a><a href=/b>b</a><a href=/c>c</a>''
             = Inr [ex_anchor ''/b'' ''b'', ex_anchor ''/b'' ''b'', ex_anchor ''/c'' ''c'']"
    by code_simp
  have a: "anchor_hrefs [ex_anchor ''/b'' ''b'', ex_anchor ''/b'' ''b'', ex_anchor ''/c'' ''c'']
             = [''/b'', ''/b'', ''/c'']"
    by code_simp
  from scrape_pages_distinct_urls [OF ex_scrape_10] a b ex_scrape_10 show ?thesis by simp
qed




text \<open>
  C4, as amended. For a valid seed URL that the robots gate lets through (the flag is
  off, or \<open>can_fetch\<close> answers \<open>True\<close>), when the seed fetch fails, that is
  \<open>requests.get\<close> raises (transport error, timeout) or the response has a status from
  400 to 599, the statuses on which \<open>raise_for_status\<close> raises, \<open>scrape\<close> raises nothing
  and returns a result with no pages and a non-empty error string.
\<close>

theorem scrape_seed_fetch_fails:
  assumes "is_valid_url L u"
    and "fst (robots_gate L N ws log u)"
    and "case N (length (snd (snd (robots_gate L N ws log u)))) (GetPage u) of
           Raises e \<Rightarrow> True
         | Response r \<Rightarrow> 400 \<le> status_code r \<and> status_code r < 600"
  shows "fst (scrape L N ws log u)
           = Inr \<lparr>base_url = u, pages = [], error = Some (''Failed to fetch main URL: '' @ u)\<rparr>
         \<and> ''Failed to fetch main URL: '' @ u \<noteq> []"
proof -
  obtain a rc1 log1 where g: "robots_gate L N ws log u = (a, rc1, log1)"
    by (cases "robots_gate L N ws log u")
  with assms(2) have a: "a" by simp
  from assms(3) g have "fst (fetch_url N log1 u) = None" by (simp add: fetch_url_None)
  then obtain lg where "fetch_url N log1 u = (None, lg)" by (cases "fetch_url N log1 u") simp
  with assms(1) g a show ?thesis by (simp add: scrape_def scrape_try_def)
qed

theorem scrape_seed_fetch_fails_witness:
  "is_valid_url ex_lib ''https://down.example/'' \<and>
   respect_robots_txt (config (ex_scraper 3 True)) \<and>
   fst (robots_gate ex_lib ex_net (ex_scraper 3 True) [] ''https://down.example/'') \<and>
   ex_net 1 (GetPage ''https://down.example/'') = Raises (Exception ''ConnectionError'') \<and>
   fst (scrape ex_lib ex_net (ex_scraper 3 True) [] ''https://down.example/'')
     = Inr \<lparr>base_url = ''https://down.example/'', pages = [],
            error = Some ''Failed to fetch main URL: https://down.example/''\<rparr>"
proof -
  have v: "is_valid_url ex_lib ''https://down.example/''" by code_simp
  have r: "respect_robots_txt (config (ex_scraper 3 True))" by code_simp
  have n: "ex_net 1 (GetPage ''https://down.example/'') = Raises (Exception ''ConnectionError'')"
    by code_simp
  have f: "case ex_net (length (snd (snd (robots_gate ex_lib ex_net (ex_scraper 3 True) []
                                            ''https://down.example/''))))
             (GetPage ''https://down.example/'') of
             Raises e \<Rightarrow> True
           | Response r \<Rightarrow> 400 \<le> status_code r \<and> status_code r < 600"
    by code_simp
  from scrape_seed_fetch_fails [OF v ex_down_gate f] v r n ex_down_gate show ?thesis by simp
qed

text \<open>
  C4 as the specification states it counts every status outside 200 to 299 as a failed
  fetch. The answer of \<open>example.net\<close> has status 304, on which \<open>raise_for_status\<close> does
  not raise: the result holds the seed page and \<open>error\<close> is null.
\<close>

theorem scrape_seed_status_304_counterexample:
  "is_valid_url ex_lib ''https://example.net/'' \<and>
   fst (robots_gate ex_lib ex_net (ex_scraper 3 False) [] ''https://example.net/'') \<and>
   ex_net 0 (GetPage ''https://example.net/'') = Response \<lparr>status_code = 304, resp_text = []\<rparr> \<and>
   fst (scrape ex_lib ex_net (ex_scraper 3 False) [] ''https://example.net/'')
     = Inr \<lparr>base_url = ''https://example.net/'', pages = [ex_page ''https://example.net/''],
            error = None\<rparr>"
  by code_simp

text \<open>
  C5. For a string that the validator does not accept as a URL, \<open>scrape\<close> raises
  \<open>ValueError\<close>; the network log and the scraper are as before the call, so no page
  and no robots.txt was requested, and no result object is returned.
\<close>

theorem scrape_invalid_url_raises:
  assumes "\<not> is_valid_url L u"
  shows "scrape L N ws log u = (Inl (ValueError (''Invalid URL: '' @ u)), ws, log)"
  using assms by (simp add: scrape_def)

theorem scrape_invalid_url_raises_witness:
  "\<not> is_valid_url ex_lib ''not a url'' \<and>
   scrape ex_lib ex_net (ex_scraper 3 True) [] ''not a url''
     = (Inl (ValueError ''Invalid URL: not a url''), ex_scraper 3 True, [])"
proof -
  have h: "\<not> is_valid_url ex_lib ''not a url''" by code_simp
  from scrape_invalid_url_raises [OF h, of ex_net "ex_scraper 3 True" "[]"] h show ?thesis by simp
qed

text \<open>
  C6. The claim asks that a later \<open>can_fetch\<close> for the first domain is still answered
  from the first domain's rules. The run below evaluates the code on a fresh checker:
  \<open>a.example\<close> forbids everything and \<open>b.example\<close> allows everything. The first call for
  \<open>https://a.example/private\<close> answers \<open>False\<close>; after a call for \<open>b.example\<close> the same
  question answers \<open>True\<close>, without any further request: both cache entries refer to the
  one parser object, which now holds the rules of \<open>b.example\<close>.
\<close>

theorem can_fetch_shared_parser:
  "(case can_fetch ex_lib ex_net (RobotsTxtChecker_init ex_lib) [] ''https://a.example/private'' ''*'' of
      (r1, rc1, log1) \<Rightarrow>
        (case can_fetch ex_lib ex_net rc1 log1 ''https://b.example/'' ''*'' of
           (r2, rc2, log2) \<Rightarrow>
             (case can_fetch ex_lib ex_net rc2 log2 ''https://a.example/private'' ''*'' of
                (r3, rc3, log3) \<Rightarrow>
                  (r1, r2, r3, log3, cache rc3 ''a.example'', cache rc3 ''b.example'', store rc3 0))))
   = (False, True, True,
      [GetRobots ''https://a.example/robots.txt'', GetRobots ''https://b.example/robots.txt''],
      Some 0, Some 0, Some allow_all)"
  by code_simp




text \<open>
  C8, as amended. The visited set belongs to the \<open>WebScraper\<close> object and not to one
  call: the constructor sets it to the empty set, and \<open>scrape\<close> never clears it. After a
  call that raises it is unchanged, and the call has requested no page. After a call that
  returns it is the set before the call together with the URLs of the returned pages; no
  page after the first has a URL that was in the set when the call began; and the page
  requests of the call are one for the seed, followed by requests only for URLs other
  than the seed that were not in the set when the call began. So a URL visited by an
  earlier call on the same object is not fetched as a secondary page by a later one, and
  only a call on a new object starts from the empty set.
\<close>

theorem visited_urls_instance_scope:
  "visited_urls (WebScraper_init L cfg) = {} \<and>
   (case fst (scrape L N ws log u) of
      Inl e \<Rightarrow>
        visited_urls (fst (snd (scrape L N ws log u))) = visited_urls ws \<and>
        (\<exists>rs. snd (snd (scrape L N ws log u)) = log @ map GetRobots rs)
    | Inr res \<Rightarrow>
        visited_urls (fst (snd (scrape L N ws log u))) = visited_urls ws \<union> set (map url (pages res)) \<and>
        (\<forall>p \<in> set (tl (pages res)). url p \<notin> visited_urls ws) \<and>
        (\<exists>rs fs. snd (snd (scrape L N ws log u)) = log @ map GetRobots rs @ GetPage u # map GetPage fs \<and>
             set fs \<inter> visited_urls ws = {} \<and> u \<notin> set fs))"
proof (cases "fst (scrape L N ws log u)")
  case (Inl e)
  from robots_gate_log [of L N ws log u] obtain rs where
    rs: "snd (snd (robots_gate L N ws log u)) = log @ map GetRobots rs" by blast
  have "\<exists>rs. snd (snd (scrape L N ws log u)) = log @ map GetRobots rs"
  proof -
    from scrape_Inl(2) [OF Inl]
    consider "snd (snd (scrape L N ws log u)) = log @ map GetRobots []"
      | "snd (snd (scrape L N ws log u)) = log @ map GetRobots rs"
      using rs by auto
    then show ?thesis by cases blast+
  qed
  with Inl scrape_Inl(1) [OF Inl] show ?thesis by (simp add: WebScraper_init_def)
next
  case (Inr res)
  from robots_gate_log [of L N ws log u] obtain rs where
    rs: "snd (snd (robots_gate L N ws log u)) = log @ map GetRobots rs" by blast
  from scrape_Inr [OF Inr] obtain e V' lg' where
    t: "scrape_try L N (config ws) (visited_urls ws) (snd (snd (robots_gate L N ws log u))) u
          = (e, V', pages res, lg')"
    and v: "visited_urls (fst (snd (scrape L N ws log u))) = V'"
    and l: "snd (snd (scrape L N ws log u)) = lg'" by blast
  from scrape_try_cases [OF t]
  consider "pages res = []" "V' = visited_urls ws"
      "lg' = snd (snd (robots_gate L N ws log u)) @ [GetPage u]"
    | c Q fs where "pages res = \<lparr>url = u, content = c\<rparr> # Q"
        "set (map url Q) \<inter> insert u (visited_urls ws) = {}"
        "V' = insert u (visited_urls ws) \<union> set (map url Q)"
        "lg' = snd (snd (robots_gate L N ws log u)) @ GetPage u # map GetPage fs"
        "set fs \<inter> insert u (visited_urls ws) = {}"
    by blast
  then have "V' = visited_urls ws \<union> set (map url (pages res)) \<and>
        (\<forall>p \<in> set (tl (pages res)). url p \<notin> visited_urls ws) \<and>
        (\<exists>rs fs. lg' = log @ map GetRobots rs @ GetPage u # map GetPage fs \<and>
             set fs \<inter> visited_urls ws = {} \<and> u \<notin> set fs)"
  proof cases
    case 1
    from 1(3) rs have "lg' = log @ map GetRobots rs @ GetPage u # map GetPage []" by simp
    then have "\<exists>rs fs. lg' = log @ map GetRobots rs @ GetPage u # map GetPage fs \<and>
             set fs \<inter> visited_urls ws = {} \<and> u \<notin> set fs"
      by (intro exI [of _ rs] exI [of _ "[]"]) simp
    with 1(1,2) show ?thesis by simp
  next
    case 2
    from 2(2) have q: "\<forall>p \<in> set Q. url p \<notin> visited_urls ws" by auto
    from 2(4) rs have "lg' = log @ map GetRobots rs @ GetPage u # map GetPage fs" by simp
    moreover from 2(5) have "set fs \<inter> visited_urls ws = {}" "u \<notin> set fs" by auto
    ultimately have "\<exists>rs fs. lg' = log @ map GetRobots rs @ GetPage u # map GetPage fs \<and>
             set fs \<inter> visited_urls ws = {} \<and> u \<notin> set fs" by blast
    with q 2(1,3) show ?thesis by auto
  qed
  with Inr v l show ?thesis by (simp add: WebScraper_init_def)
qed

theorem visited_urls_instance_scope_witness:
  "fst (scrape ex_lib ex_net ((ex_scraper 10 False)\<lparr>visited_urls := {''https://example.com/c''}\<rparr>) []
          ''https://example.com/'')
     = Inr \<lparr>base_url = ''https://example.com/'',
            pages = [ex_page ''https://example.com/'', ex_page ''https://example.com/b''],
            error = None\<rparr> \<and>
   visited_urls (fst (snd (scrape ex_lib ex_net
       ((ex_scraper 10 False)\<lparr>visited_urls := {''https://example.com/c''}\<rparr>) [] ''https://example.com/'')))
     = {''https://example.com/c''} \<union> {''https://example.com/'', ''https://example.com/b''} \<and>
   snd (snd (scrape ex_lib ex_net ((ex_scraper 10 False)\<lparr>visited_urls := {''https://example.com/c''}\<rparr>) []
          ''https://example.com/''))
     = [GetPage ''https://example.com/'', GetPage ''https://example.com/b'']"
  using visited_urls_instance_scope [of ex_lib None ex_net
      "(ex_scraper 10 False)\<lparr>visited_urls := {''https://example.com/c''}\<rparr>" "[]" "''https://example.com/''"]
    ex_revisit ex_revisit_log
  by (simp add: ex_page_def)

text \<open>
  C8 as the specification states it has every call start from the empty set. Two calls
  on one object with \<open>max_pages = 3\<close>: the first returns the seed and \<open>/b\<close> and leaves
  both in the visited set; the second, for the same seed on the same network, returns
  the seed and \<open>/c\<close>, where a new object returns the seed and \<open>/b\<close> again.
\<close>

theorem visited_urls_persist_counterexample:
  "(case scrape ex_lib ex_net (ex_scraper 3 False) [] ''https://example.com/'' of
      (r1, ws1, log1) \<Rightarrow>
        (visited_urls ws1, r1, fst (scrape ex_lib ex_net ws1 log1 ''https://example.com/''),
         fst (scrape ex_lib ex_net (ex_scraper 3 False) log1 ''https://example.com/'')))
   = ({''https://example.com/'', ''https://example.com/b''},
      Inr \<lparr>base_url = ''https://example.com/'',
           pages = [ex_page ''https://example.com/'', ex_page ''https://example.com/b''], error = None\<rparr>,
      Inr \<lparr>base_url = ''https://example.com/'',
           pages = [ex_page ''https://example.com/'', ex_page ''https://example.com/c''], error = None\<rparr>,
      Inr \<lparr>base_url = ''https://example.com/'',
           pages = [ex_page ''https://example.com/'', ex_page ''https://example.com/b''], error = None\<rparr>)"
  by code_simp




end
